theory Spec2Isabelle
  imports Main
begin

section \<open>The asynchronous scraper of \<^verbatim>\<open>src/async_scraper.py\<close>\<close>

text \<open>
  The class \<^verbatim>\<open>Scraper\<close> fetches JSON documents from a list of URLs. One coroutine per
  URL runs \<^verbatim>\<open>fetch_json\<close>; the coroutines share a semaphore, an HTTP client and a counter
  of successful fetches, and \<^verbatim>\<open>asyncio.gather\<close> collects what they return.

  The network is outside the program. It is a parameter of the model: an oracle that
  says, for each GET the program issues, what \<^verbatim>\<open>client.get\<close> does (raise an exception or
  return a response) and, for a response, its status code and what \<^verbatim>\<open>response.json()\<close>
  does. Only exceptions below \<^verbatim>\<open>Exception\<close> are modelled: the program cancels no task,
  and \<^verbatim>\<open>except Exception\<close> does not catch a \<^verbatim>\<open>BaseException\<close> from outside.
\<close>

subsection \<open>Data\<close>

type_synonym url = string

text \<open>
  The exception classes the handlers of \<^verbatim>\<open>fetch_json\<close> tell apart:
  \<^verbatim>\<open>httpx.HTTPStatusError\<close>, \<^verbatim>\<open>httpx.RequestError\<close> (a transport failure), and every
  other subclass of \<^verbatim>\<open>Exception\<close> (a JSON decoding error, an invalid URL, ...).
\<close>

datatype exn = HTTPStatusError | RequestError | OtherException

text \<open>
  A response: its status code and the outcome of \<^verbatim>\<open>response.json()\<close>, which raises or
  returns a Python value. The payload type \<open>'d\<close> stands for the decoded documents other
  than \<^verbatim>\<open>None\<close>; \<open>None\<close> is Python's \<^verbatim>\<open>None\<close> (what the body \<^verbatim>\<open>null\<close> decodes to), so the
  value \<^verbatim>\<open>fetch_json\<close> returns, an \<^verbatim>\<open>Optional[Dict]\<close>, is a \<open>'d option\<close>.
\<close>

record 'd response =
  status_code :: nat
  json :: "exn + 'd option"

type_synonym 'd get_outcome = "exn + 'd response"

text \<open>
  The lines written through \<^verbatim>\<open>logging\<close>, one constructor per call site. The text of the
  exception that the messages interpolate is not modelled.
\<close>

datatype log_entry =
    Info_fetched url
  | Error_http url
  | Error_request url
  | Error_unexpected url
  | Error_no_data

text \<open>
  The state a run works on: the fields of \<^verbatim>\<open>Scraper\<close> (\<open>semaphore\<close> is the number of free
  slots of the \<^verbatim>\<open>asyncio.Semaphore\<close>, \<open>client_closed\<close> whether \<^verbatim>\<open>client.aclose()\<close> has run),
  and the traces of its effects: the GET requests issued through the client, the log,
  and the numbers printed by \<^verbatim>\<open>fetch_data\<close>. The field \<^verbatim>\<open>retrieve_date\<close> is never read.
\<close>

record scraper =
  semaphore :: nat
  successful_fetches :: nat
  client_closed :: bool
  client_calls :: "url list"
  logged :: "log_entry list"
  stdout :: "nat list"

text \<open>
  \<^verbatim>\<open>__init__\<close>. \<^verbatim>\<open>asyncio.Semaphore\<close> refuses a negative value with \<^verbatim>\<open>ValueError\<close>, so the
  capacity is a natural number.
\<close>

definition Scraper :: "nat \<Rightarrow> scraper" where
  "Scraper concurrent_requests =
     \<lparr>semaphore = concurrent_requests, successful_fetches = 0, client_closed = False,
      client_calls = [], logged = [], stdout = []\<rparr>"

subsection \<open>One fetch, run without interruption\<close>

text \<open>
  \<^verbatim>\<open>response.raise_for_status()\<close> belongs to httpx. It raises \<^verbatim>\<open>HTTPStatusError\<close> unless the
  status is a success, that is, unless it is one of the 2xx codes. The 4xx and 5xx codes,
  which the comment at its call names, are among those it raises for; so are the 1xx
  and 3xx codes (httpx follows no redirect unless asked to).
\<close>

definition raise_for_status :: "'d response \<Rightarrow> bool" where
  "raise_for_status r = (\<not> (200 \<le> status_code r \<and> status_code r \<le> 299))"

text \<open>
  The body of the \<^verbatim>\<open>try\<close> (lines 50 to 55). The oracle \<open>net\<close> of one fetch maps the
  number of the attempt (0 the first GET, 1 the retry) to what the GET does. The counter
  is incremented before \<^verbatim>\<open>response.json()\<close> is evaluated.
\<close>

definition try_block ::
  "(nat \<Rightarrow> 'd get_outcome) \<Rightarrow> url \<Rightarrow> scraper \<Rightarrow> (exn + 'd option) \<times> scraper" where
  "try_block net url s =
     (let s1 = s\<lparr>client_calls := client_calls s @ [url]\<rparr> in
      case net 0 of
        Inl e \<Rightarrow> (Inl e, s1)
      | Inr response \<Rightarrow>
          if raise_for_status response then (Inl HTTPStatusError, s1)
          else
            let s2 = s1\<lparr>logged := logged s1 @ [Info_fetched url],
                       successful_fetches := successful_fetches s1 + 1\<rparr>
            in (json response, s2))"

text \<open>
  The three \<^verbatim>\<open>except\<close> clauses (lines 56 to 65) and the final \<^verbatim>\<open>return None\<close> (line 66).
  The retry's response is bound to a variable and never used.
\<close>

fun except_clauses ::
  "(nat \<Rightarrow> 'd get_outcome) \<Rightarrow> url \<Rightarrow> exn \<Rightarrow> scraper \<Rightarrow> (exn + 'd option) \<times> scraper" where
  "except_clauses net url HTTPStatusError s =
     (Inr None, s\<lparr>logged := logged s @ [Error_http url]\<rparr>)"
| "except_clauses net url RequestError s =
     (let s1 = s\<lparr>logged := logged s @ [Error_request url],
                 client_calls := client_calls s @ [url]\<rparr> in
      case net 1 of
        Inl e \<Rightarrow> (Inr None, s1)
      | Inr response \<Rightarrow> (Inr None, s1))"
| "except_clauses net url OtherException s =
     (Inr None, s\<lparr>logged := logged s @ [Error_unexpected url]\<rparr>)"

definition fetch_json_body ::
  "(nat \<Rightarrow> 'd get_outcome) \<Rightarrow> url \<Rightarrow> scraper \<Rightarrow> (exn + 'd option) \<times> scraper" where
  "fetch_json_body net url s =
     (case try_block net url s of
        (Inr v, s1) \<Rightarrow> (Inr v, s1)
      | (Inl e, s1) \<Rightarrow> except_clauses net url e s1)"

text \<open>
  \<^verbatim>\<open>fetch_json\<close>: the body inside \<^verbatim>\<open>async with self.semaphore\<close>. With no free slot the
  coroutine stays suspended (\<open>None\<close>: nothing is returned); otherwise it takes a slot,
  runs the body and gives the slot back on every exit, an exception included.
\<close>

definition fetch_json ::
  "(nat \<Rightarrow> 'd get_outcome) \<Rightarrow> url \<Rightarrow> scraper \<Rightarrow> ((exn + 'd option) \<times> scraper) option" where
  "fetch_json net url s =
     (if semaphore s = 0 then None
      else
        case fetch_json_body net url (s\<lparr>semaphore := semaphore s - 1\<rparr>) of
          (r, s1) \<Rightarrow> Some (r, s1\<lparr>semaphore := semaphore s1 + 1\<rparr>))"

subsection \<open>Coroutines under the event loop\<close>

text \<open>
  A coroutine running \<^verbatim>\<open>fetch_json\<close> gives control back at its \<^verbatim>\<open>await\<close>s only; between
  two of them its code runs without interruption. Its state is the \<^verbatim>\<open>await\<close> it is
  suspended at: the semaphore (line 48), the first GET (line 50), the sleep (line 52,
  holding the response), the retry (line 61); or it has returned a value.
\<close>

datatype 'd task =
    Pending
  | AwaitGet
  | Sleeping "'d response"
  | AwaitRetry
  | Done "'d option"

definition release :: "scraper \<Rightarrow> scraper" where
  "release s = s\<lparr>semaphore := semaphore s + 1\<rparr>"

text \<open>
  Where an exception raised in the \<^verbatim>\<open>try\<close> takes the coroutine: to its return (the slot
  is given back), or to the retry's \<^verbatim>\<open>await\<close>.
\<close>

fun on_exception :: "url \<Rightarrow> exn \<Rightarrow> scraper \<Rightarrow> 'd task \<times> scraper" where
  "on_exception url HTTPStatusError s =
     (Done None, release (s\<lparr>logged := logged s @ [Error_http url]\<rparr>))"
| "on_exception url RequestError s =
     (AwaitRetry, s\<lparr>logged := logged s @ [Error_request url],
                    client_calls := client_calls s @ [url]\<rparr>)"
| "on_exception url OtherException s =
     (Done None, release (s\<lparr>logged := logged s @ [Error_unexpected url]\<rparr>))"

text \<open>
  The event loop resumes a coroutine, which runs to its next \<^verbatim>\<open>await\<close> or to its return.
  A coroutine waiting for the semaphore goes on only when a slot is free; one that has
  returned does nothing more.
\<close>

fun resume :: "(nat \<Rightarrow> 'd get_outcome) \<Rightarrow> url \<Rightarrow> 'd task \<Rightarrow> scraper \<Rightarrow> 'd task \<times> scraper" where
  "resume net url Pending s =
     (if semaphore s = 0 then (Pending, s)
      else (AwaitGet, s\<lparr>semaphore := semaphore s - 1,
                        client_calls := client_calls s @ [url]\<rparr>))"
| "resume net url AwaitGet s =
     (case net 0 of
        Inl e \<Rightarrow> on_exception url e s
      | Inr response \<Rightarrow>
          if raise_for_status response then on_exception url HTTPStatusError s
          else (Sleeping response, s))"
| "resume net url (Sleeping response) s =
     (let s1 = s\<lparr>logged := logged s @ [Info_fetched url],
                 successful_fetches := successful_fetches s + 1\<rparr> in
      case json response of
        Inl e \<Rightarrow> on_exception url e s1
      | Inr v \<Rightarrow> (Done v, release s1))"
| "resume net url AwaitRetry s =
     (case net 1 of
        Inl e \<Rightarrow> (Done None, release s)
      | Inr response \<Rightarrow> (Done None, release s))"
| "resume net url (Done v) s = (Done v, s)"

text \<open>
  A configuration: the shared state and the coroutines in the order of the URL list,
  each with the URL it was created for. The oracle of a run says what the network does
  for the coroutine at a position of the list when it requests a URL: the answer may
  depend on the URL requested, on the attempt, and on the position, so a URL that occurs
  twice is fetched twice, independently. A coroutine consults it with the URL it holds.
\<close>

type_synonym 'd config = "scraper \<times> (url \<times> 'd task) list"

definition step ::
  "(nat \<Rightarrow> url \<Rightarrow> nat \<Rightarrow> 'd get_outcome) \<Rightarrow> nat \<Rightarrow> 'd config \<Rightarrow> 'd config" where
  "step net i c =
     (case c of (s, ts) \<Rightarrow>
        if i < length ts then
          (case ts ! i of (url, t) \<Rightarrow>
             (case resume (net i url) url t s of (t', s') \<Rightarrow> (s', ts[i := (url, t')])))
        else c)"

text \<open>
  A schedule is the order in which the event loop resumes coroutines: the list of their
  positions. It decides which fetch completes first. Naming a coroutine that cannot go
  on changes nothing.
\<close>

fun exec ::
  "(nat \<Rightarrow> url \<Rightarrow> nat \<Rightarrow> 'd get_outcome) \<Rightarrow> nat list \<Rightarrow> 'd config \<Rightarrow> 'd config" where
  "exec net [] c = c"
| "exec net (i # sched) c = exec net sched (step net i c)"

fun task_result :: "'d task \<Rightarrow> 'd option option" where
  "task_result (Done v) = Some v"
| "task_result _ = None"

text \<open>
  \<^verbatim>\<open>fetch_data\<close> (lines 78 to 81): one coroutine per URL, \<^verbatim>\<open>asyncio.gather\<close>, the printed
  count. \<^verbatim>\<open>gather\<close> returns once every coroutine has returned, with the returned values
  in the order of its arguments; \<open>None\<close> says that under this schedule it has not.
\<close>

definition fetch_data ::
  "(nat \<Rightarrow> url \<Rightarrow> nat \<Rightarrow> 'd get_outcome) \<Rightarrow> nat list \<Rightarrow> url list \<Rightarrow> scraper
     \<Rightarrow> ('d option list \<times> scraper) option" where
  "fetch_data net sched urls_list s =
     (case exec net sched (s, map (\<lambda>url. (url, Pending)) urls_list) of
        (s1, ts) \<Rightarrow>
          (case those (map (\<lambda>(url, t). task_result t) ts) of
             None \<Rightarrow> None
           | Some results \<Rightarrow>
               Some (results, s1\<lparr>stdout := stdout s1 @ [successful_fetches s1]\<rparr>)))"

text \<open>
  \<^verbatim>\<open>run\<close> (lines 84 to 91). \<^verbatim>\<open>if data\<close> tests the list for being non-empty. Leaving the
  \<^verbatim>\<open>async with\<close> closes the client.
\<close>

definition run ::
  "(nat \<Rightarrow> url \<Rightarrow> nat \<Rightarrow> 'd get_outcome) \<Rightarrow> nat list \<Rightarrow> url list \<Rightarrow> nat
     \<Rightarrow> ('d option list option \<times> scraper) option" where
  "run net sched urls_list concurrency =
     (case fetch_data net sched urls_list (Scraper concurrency) of
        None \<Rightarrow> None
      | Some (data, s) \<Rightarrow>
          (case (if data \<noteq> [] then (Some data, s)
                 else (None, s\<lparr>logged := logged s @ [Error_no_data]\<rparr>)) of
             (returned, s1) \<Rightarrow> Some (returned, s1\<lparr>client_closed := True\<rparr>)))"

subsection \<open>Measures on configurations\<close>

text \<open>The coroutines inside the \<^verbatim>\<open>async with\<close>: those holding a slot of the semaphore.\<close>

fun holds_slot :: "'d task \<Rightarrow> bool" where
  "holds_slot Pending = False"
| "holds_slot (Done v) = False"
| "holds_slot _ = True"

definition holders :: "(url \<times> 'd task) list \<Rightarrow> nat" where
  "holders ts = length (filter (\<lambda>(url, t). holds_slot t) ts)"

definition slot :: "'d task \<Rightarrow> nat" where
  "slot t = (if holds_slot t then 1 else 0)"

text \<open>
  The value a fetch returns, read off the oracle alone; and the value a coroutine in a
  given state is going to return.
\<close>

definition final_value :: "(nat \<Rightarrow> 'd get_outcome) \<Rightarrow> 'd option" where
  "final_value net =
     (case net 0 of
        Inl e \<Rightarrow> None
      | Inr response \<Rightarrow>
          if raise_for_status response then None
          else (case json response of Inl e \<Rightarrow> None | Inr v \<Rightarrow> v))"

fun outcome_of :: "(nat \<Rightarrow> 'd get_outcome) \<Rightarrow> 'd task \<Rightarrow> 'd option" where
  "outcome_of net Pending = final_value net"
| "outcome_of net AwaitGet = final_value net"
| "outcome_of net (Sleeping response) = (case json response of Inl e \<Rightarrow> None | Inr v \<Rightarrow> v)"
| "outcome_of net AwaitRetry = None"
| "outcome_of net (Done v) = v"

text \<open>An upper bound on the number of times a coroutine can still be resumed.\<close>

fun remaining :: "'d task \<Rightarrow> nat" where
  "remaining Pending = 4"
| "remaining AwaitGet = 3"
| "remaining (Sleeping response) = 2"
| "remaining AwaitRetry = 1"
| "remaining (Done v) = 0"

definition work :: "(url \<times> 'd task) list \<Rightarrow> nat" where
  "work ts = sum_list (map (\<lambda>(url, t). remaining t) ts)"

subsection \<open>Networks used as concrete inputs\<close>

text \<open>
  Payloads are written as strings. \<open>example_net\<close> holds four oracles of single fetches:
  the first answers 200 with a document, the second answers 404, the third fails at the
  transport level and answers the retry, and any further one makes \<^verbatim>\<open>client.get\<close> raise
  some other exception (as an invalid URL does). \<open>example_web\<close> is a network for a run
  that answers by the URL requested, wherever in the list it stands: \<^verbatim>\<open>u0\<close>, \<^verbatim>\<open>u1\<close> and
  \<^verbatim>\<open>u2\<close> get the first three behaviours, every other URL the fourth. In \<open>failing_net\<close> the
  first coroutine's GET answers 500 and every other GET is a transport failure. In
  \<open>undecodable_net\<close> every GET answers 200 with a body that is not JSON.
\<close>

definition example_net :: "nat \<Rightarrow> nat \<Rightarrow> string get_outcome" where
  "example_net i attempt =
     (if i = 0 then Inr \<lparr>status_code = 200, json = Inr (Some ''page 1'')\<rparr>
      else if i = 1 then Inr \<lparr>status_code = 404, json = Inr (Some ''not found'')\<rparr>
      else if i = 2 then
        (if attempt = 0 then Inl RequestError
         else Inr \<lparr>status_code = 200, json = Inr (Some ''page 3'')\<rparr>)
      else Inl OtherException)"

definition example_web :: "nat \<Rightarrow> url \<Rightarrow> nat \<Rightarrow> string get_outcome" where
  "example_web i url attempt =
     (if url = ''u0'' then example_net 0 attempt
      else if url = ''u1'' then example_net 1 attempt
      else if url = ''u2'' then example_net 2 attempt
      else example_net 3 attempt)"

definition failing_net :: "nat \<Rightarrow> url \<Rightarrow> nat \<Rightarrow> string get_outcome" where
  "failing_net i url attempt =
     (if i = 0 then Inr \<lparr>status_code = 500, json = Inl OtherException\<rparr>
      else Inl RequestError)"

definition undecodable_net :: "nat \<Rightarrow> url \<Rightarrow> nat \<Rightarrow> string get_outcome" where
  "undecodable_net i url attempt = Inr \<lparr>status_code = 200, json = Inl OtherException\<rparr>"

section \<open>One fetch\<close>

lemma except_clauses_value: "\<exists>s'. except_clauses net url e s = (Inr None, s')"
  by (cases e; cases "net 1") simp_all

lemma try_block_cases:
  "try_block net url s =
     (case net 0 of
        Inl e \<Rightarrow> (Inl e, s\<lparr>client_calls := client_calls s @ [url]\<rparr>)
      | Inr response \<Rightarrow>
          if raise_for_status response
          then (Inl HTTPStatusError, s\<lparr>client_calls := client_calls s @ [url]\<rparr>)
          else (json response,
                s\<lparr>client_calls := client_calls s @ [url],
                  logged := logged s @ [Info_fetched url],
                  successful_fetches := successful_fetches s + 1\<rparr>))"
  by (simp add: try_block_def Let_def split: sum.splits)
lemma fetch_json_body_value:
  "\<exists>v s'. fetch_json_body net url s = (Inr v, s') \<and>
     (v \<noteq> None \<longrightarrow> (\<exists>r. net 0 = Inr r \<and> \<not> raise_for_status r \<and> json r = Inr v))"
proof (cases "try_block net url s")
  case (Pair x s1)
  show ?thesis
  proof (cases x)
    case (Inl e)
    obtain s' where "except_clauses net url e s1 = (Inr None, s')"
      using except_clauses_value by blast
    with Pair Inl show ?thesis by (simp add: fetch_json_body_def)
  next
    case (Inr v)
    with Pair have "v \<noteq> None \<longrightarrow> (\<exists>r. net 0 = Inr r \<and> \<not> raise_for_status r \<and> json r = Inr v)"
      by (auto simp: try_block_cases split: sum.splits if_splits)
    with Pair Inr show ?thesis by (simp add: fetch_json_body_def)
  qed
qed

lemma fetch_json_body_final_value:
  "fst (fetch_json_body net url s) = Inr (final_value net)"
proof (cases "net 0")
  case (Inl e)
  obtain s' where "except_clauses net url e (s\<lparr>client_calls := client_calls s @ [url]\<rparr>) = (Inr None, s')"
    using except_clauses_value by blast
  with Inl show ?thesis by (simp add: fetch_json_body_def try_block_def final_value_def)
next
  case (Inr r)
  show ?thesis
  proof (cases "raise_for_status r")
    case True
    with Inr show ?thesis by (simp add: fetch_json_body_def try_block_def final_value_def)
  next
    case False
    show ?thesis
    proof (cases "json r")
      case (Inl e)
      obtain s' where "except_clauses net url e
          (s\<lparr>client_calls := client_calls s @ [url], logged := logged s @ [Info_fetched url],
             successful_fetches := Suc (successful_fetches s)\<rparr>) = (Inr None, s')"
        using except_clauses_value by blast
      with Inl False \<open>net 0 = Inr r\<close> show ?thesis
        by (simp add: fetch_json_body_def try_block_def final_value_def)
    next
      case (Inr v)
      with False \<open>net 0 = Inr r\<close> show ?thesis
        by (simp add: fetch_json_body_def try_block_def final_value_def)
    qed
  qed
qed

text \<open>
  C7. Whatever the URL and whatever the network does, \<^verbatim>\<open>fetch_json\<close> raises nothing: once
  it has a slot it returns a value, and that value is \<^verbatim>\<open>None\<close> unless the first GET
  returned a response that \<open>raise_for_status\<close> accepts and whose body decoded to that
  value.
  So the HTTP status failure, the transport failure (whatever the retry does), the
  decoding failure and every other exception all end in \<^verbatim>\<open>None\<close>.
\<close>

theorem fetch_json_never_raises:
  "0 < semaphore s \<Longrightarrow>
     \<exists>v s'. fetch_json net url s = Some (Inr v, s') \<and>
       (v \<noteq> None \<longrightarrow> (\<exists>r. net 0 = Inr r \<and> \<not> raise_for_status r \<and> json r = Inr v))"
proof -
  assume free: "0 < semaphore s"
  define s0 where "s0 = s\<lparr>semaphore := semaphore s - 1\<rparr>"
  have "\<exists>v s1. fetch_json_body net url s0 = (Inr v, s1) \<and>
     (v \<noteq> None \<longrightarrow> (\<exists>r. net 0 = Inr r \<and> \<not> raise_for_status r \<and> json r = Inr v))"
    by (rule fetch_json_body_value)
  then obtain v s1 where
    body: "fetch_json_body net url s0 = (Inr v, s1)" and
    v: "v \<noteq> None \<longrightarrow> (\<exists>r. net 0 = Inr r \<and> \<not> raise_for_status r \<and> json r = Inr v)"
    by (elim exE conjE)
  from free have "semaphore s \<noteq> 0" by simp
  then have "fetch_json net url s =
      (case fetch_json_body net url s0 of (r, s1) \<Rightarrow> Some (r, s1\<lparr>semaphore := semaphore s1 + 1\<rparr>))"
    unfolding fetch_json_def s0_def by (rule if_not_P)
  with body have "fetch_json net url s = Some (Inr v, s1\<lparr>semaphore := semaphore s1 + 1\<rparr>)"
    by simp
  with v show ?thesis by (intro exI conjI)
qed

text \<open>The malformed URL of \<open>example_net\<close>: \<^verbatim>\<open>client.get\<close> raises, the fetch returns \<^verbatim>\<open>None\<close>.\<close>

theorem fetch_json_never_raises_witness:
  "0 < semaphore (Scraper 1) \<and>
   fetch_json (example_net 3) ''not a url'' (Scraper 1) =
     Some (Inr None,
           \<lparr>semaphore = 1, successful_fetches = 0, client_closed = False,
            client_calls = [''not a url''], logged = [Error_unexpected ''not a url''],
            stdout = []\<rparr>)"
proof -
  have free: "0 < semaphore (Scraper 1)" by (simp add: Scraper_def)
  from fetch_json_never_raises [OF free, of "example_net 3" "''not a url''"]
  obtain v s' where
    r: "fetch_json (example_net 3) ''not a url'' (Scraper 1) = Some (Inr v, s')" by blast
  have "fetch_json (example_net 3) ''not a url'' (Scraper 1) =
     Some (Inr None,
           \<lparr>semaphore = 1, successful_fetches = 0, client_closed = False,
            client_calls = [''not a url''], logged = [Error_unexpected ''not a url''],
            stdout = []\<rparr>)"
    by code_simp
  with r free show ?thesis by simp
qed

text \<open>
  C5. When the first GET fails at the transport level, the same URL is requested
  exactly once more, so two GETs are issued in all, and the fetch returns \<^verbatim>\<open>None\<close>
  whatever the retry does: whether it raises or returns a response, which is dropped.
  The counter of successful fetches is not touched.
\<close>

theorem transport_failure_retries_once:
  assumes "0 < semaphore s" and "net 0 = Inl RequestError"
  shows "\<exists>s'. fetch_json net url s = Some (Inr None, s') \<and>
           client_calls s' = client_calls s @ [url, url] \<and>
           successful_fetches s' = successful_fetches s"
  using assms by (cases "net 1") (simp_all add: fetch_json_def fetch_json_body_def try_block_def)

text \<open>The third URL of \<open>example_net\<close>: its retry is answered with a document, to no avail.\<close>

theorem transport_failure_retries_once_witness:
  "0 < semaphore (Scraper 1) \<and> example_net 2 0 = Inl RequestError \<and>
   example_net 2 1 = Inr \<lparr>status_code = 200, json = Inr (Some ''page 3'')\<rparr> \<and>
   (\<exists>s'. fetch_json (example_net 2) ''u2'' (Scraper 1) = Some (Inr None, s') \<and>
      client_calls s' = client_calls (Scraper 1) @ [''u2'', ''u2''] \<and>
      successful_fetches s' = successful_fetches (Scraper 1))"
proof -
  have free: "0 < semaphore (Scraper 1)" by (simp add: Scraper_def)
  have fails: "example_net 2 0 = Inl RequestError" by (simp add: example_net_def)
  have "example_net 2 1 = Inr \<lparr>status_code = 200, json = Inr (Some ''page 3'')\<rparr>"
    by (simp add: example_net_def)
  with free fails
    transport_failure_retries_once
      [where s = "Scraper 1" and net = "example_net 2" and url = "''u2''", OF free fails]
  show ?thesis by blast
qed

text \<open>
  C6. When the first GET returns a response with a 4xx or 5xx status, the fetch returns
  \<^verbatim>\<open>None\<close>, that GET is the only one issued (there is no retry), and exactly one line is
  logged, the HTTP error.
\<close>

theorem http_status_failure_no_retry:
  assumes "0 < semaphore s" and "net 0 = Inr r"
    and "400 \<le> status_code r" and "status_code r \<le> 599"
  shows "\<exists>s'. fetch_json net url s = Some (Inr None, s') \<and>
           client_calls s' = client_calls s @ [url] \<and>
           logged s' = logged s @ [Error_http url]"
  using assms by (simp add: fetch_json_def fetch_json_body_def try_block_def raise_for_status_def)

text \<open>The second URL of \<open>example_net\<close>, which answers 404.\<close>

theorem http_status_failure_no_retry_witness:
  "0 < semaphore (Scraper 1) \<and>
   example_net 1 0 = Inr \<lparr>status_code = 404, json = Inr (Some ''not found'')\<rparr> \<and>
   (\<exists>s'. fetch_json (example_net 1) ''u1'' (Scraper 1) = Some (Inr None, s') \<and>
      client_calls s' = client_calls (Scraper 1) @ [''u1''] \<and>
      logged s' = logged (Scraper 1) @ [Error_http ''u1''])"
proof -
  have free: "0 < semaphore (Scraper 1)" by (simp add: Scraper_def)
  have resp: "example_net 1 0 = Inr \<lparr>status_code = 404, json = Inr (Some ''not found'')\<rparr>"
    by (simp add: example_net_def)
  from http_status_failure_no_retry
      [where s = "Scraper 1" and net = "example_net 1" and url = "''u1''", OF free resp]
    free resp
  show ?thesis by simp
qed

text \<open>
  C8. When the first GET returns a response with a 2xx status whose body decodes, the
  fetch returns the decoded value and the counter of successful fetches is one higher
  than before.
\<close>

theorem success_returns_payload:
  assumes "0 < semaphore s" and "net 0 = Inr r"
    and "200 \<le> status_code r" and "status_code r \<le> 299" and "json r = Inr v"
  shows "\<exists>s'. fetch_json net url s = Some (Inr v, s') \<and>
           successful_fetches s' = successful_fetches s + 1"
  using assms by (simp add: fetch_json_def fetch_json_body_def try_block_def raise_for_status_def)

text \<open>The first URL of \<open>example_net\<close>.\<close>

theorem success_returns_payload_witness:
  "0 < semaphore (Scraper 1) \<and>
   example_net 0 0 = Inr \<lparr>status_code = 200, json = Inr (Some ''page 1'')\<rparr> \<and>
   (\<exists>s'. fetch_json (example_net 0) ''u0'' (Scraper 1) = Some (Inr (Some ''page 1''), s') \<and>
      successful_fetches s' = successful_fetches (Scraper 1) + 1)"
proof -
  have free: "0 < semaphore (Scraper 1)" by (simp add: Scraper_def)
  have resp: "example_net 0 0 = Inr \<lparr>status_code = 200, json = Inr (Some ''page 1'')\<rparr>"
    by (simp add: example_net_def)
  from success_returns_payload
      [where s = "Scraper 1" and net = "example_net 0" and url = "''u0''"
         and v = "Some ''page 1''", OF free resp]
    free resp
  show ?thesis by simp
qed

section \<open>Coroutines\<close>

subsection \<open>A coroutine alone is the fetch\<close>

text \<open>
  Resumed four times with nothing in between, a coroutine that finds a free slot returns
  what \<open>fetch_json\<close> returns and leaves the state \<open>fetch_json\<close> leaves.
\<close>

lemma resume_alone:
  assumes "0 < semaphore s"
  shows "\<exists>v s'. fetch_json (net 0 url) url s = Some (Inr v, s') \<and>
           exec net [0, 0, 0, 0] (s, [(url, Pending)]) = (s', [(url, Done v)])"
proof (cases "net 0 url 0")
  case (Inl e)
  with assms show ?thesis
    by (cases e; cases "net 0 url 1")
       (simp_all add: fetch_json_def fetch_json_body_def try_block_def step_def release_def)
next
  case (Inr r)
  show ?thesis
  proof (cases "raise_for_status r")
    case True
    with Inr assms show ?thesis
      by (simp add: fetch_json_def fetch_json_body_def try_block_def step_def release_def)
  next
    case False
    show ?thesis
    proof (cases "json r")
      case (Inl e)
      with False \<open>net 0 url 0 = Inr r\<close> assms show ?thesis
        by (cases e; cases "net 0 url 1")
           (simp_all add: fetch_json_def fetch_json_body_def try_block_def step_def release_def)
    next
      case (Inr v)
      with False \<open>net 0 url 0 = Inr r\<close> assms show ?thesis
        by (simp add: fetch_json_def fetch_json_body_def try_block_def step_def release_def)
    qed
  qed
qed

subsection \<open>The semaphore\<close>

text \<open>Free slots plus coroutines inside the \<^verbatim>\<open>async with\<close> stay constant.\<close>

lemma on_exception_slots:
  "on_exception url e s = (t', s') \<Longrightarrow> semaphore s' + slot t' = semaphore s + 1"
  by (cases e) (auto simp: slot_def release_def)

lemma resume_slots:
  "resume net url t s = (t', s') \<Longrightarrow> semaphore s' + slot t' = semaphore s + slot t"
proof (cases t)
  case Pending
  assume "resume net url t s = (t', s')"
  with Pending show ?thesis by (auto simp: slot_def split: if_splits)
next
  case AwaitGet
  assume "resume net url t s = (t', s')"
  with AwaitGet show ?thesis
    by (auto simp: slot_def release_def split: sum.splits if_splits dest: on_exception_slots)
next
  case (Sleeping r)
  assume "resume net url t s = (t', s')"
  with Sleeping show ?thesis
    by (auto simp: slot_def release_def Let_def split: sum.splits dest!: on_exception_slots)
next
  case AwaitRetry
  assume "resume net url t s = (t', s')"
  with AwaitRetry show ?thesis
    by (auto simp: slot_def release_def split: sum.splits)
next
  case (Done v)
  assume "resume net url t s = (t', s')"
  with Done show ?thesis by auto
qed

lemma holders_sum: "holders ts = sum_list (map (\<lambda>(url, t). slot t) ts)"
  by (induction ts) (auto simp: holders_def slot_def)

lemma holders_update:
  assumes "i < length ts" and "ts ! i = (url, t)"
  shows "holders (ts[i := (url', t')]) + slot t = holders ts + slot t'"
  using assms
proof (induction ts arbitrary: i)
  case Nil
  then show ?case by simp
next
  case (Cons a ts)
  show ?case
  proof (cases i)
    case 0
    with Cons.prems show ?thesis by (simp add: holders_sum)
  next
    case (Suc j)
    with Cons.prems have "holders (ts[j := (url', t')]) + slot t = holders ts + slot t'"
      by (intro Cons.IH) simp_all
    with Suc show ?thesis by (simp add: holders_sum)
  qed
qed

lemma step_slots:
  "step net i (s, ts) = (s', ts') \<Longrightarrow> semaphore s' + holders ts' = semaphore s + holders ts"
proof (cases "i < length ts")
  case False
  assume "step net i (s, ts) = (s', ts')"
  with False show ?thesis by (simp add: step_def)
next
  case True
  assume st: "step net i (s, ts) = (s', ts')"
  obtain url t where ti: "ts ! i = (url, t)" by (cases "ts ! i")
  obtain t1 s1 where r: "resume (net i url) url t s = (t1, s1)"
      by (cases "resume (net i url) url t s")
  from st True ti r have eq: "s' = s1" "ts' = ts[i := (url, t1)]"
    by (simp_all add: step_def)
  from resume_slots [OF r] holders_update [OF True ti, of url t1] eq
  show ?thesis by simp
qed

lemma exec_slots:
  "exec net sched (s, ts) = (s', ts') \<Longrightarrow> semaphore s' + holders ts' = semaphore s + holders ts"
proof (induction sched arbitrary: s ts)
  case Nil
  then show ?case by simp
next
  case (Cons i sched)
  obtain s1 ts1 where st: "step net i (s, ts) = (s1, ts1)" by (cases "step net i (s, ts)")
  with Cons.prems have "exec net sched (s1, ts1) = (s', ts')" by simp
  from Cons.IH [OF this] step_slots [OF st] show ?case by simp
qed

text \<open>
  C9. In a run with capacity \<open>concurrency\<close>, after any sequence of resumptions, so at
  every point of every interleaving, at most \<open>concurrency\<close> coroutines hold a slot of the
  semaphore.
\<close>

theorem gate_bound:
  "holders (snd (exec net sched (Scraper concurrency, map (\<lambda>url. (url, Pending)) urls_list)))
     \<le> concurrency"
proof -
  let ?ts = "map (\<lambda>url. (url, Pending :: 'a task)) urls_list"
  obtain s' ts' where e: "exec net sched (Scraper concurrency, ?ts) = (s', ts')"
    by (cases "exec net sched (Scraper concurrency, ?ts)")
  have "holders ?ts = 0" by (induction urls_list) (simp_all add: holders_def)
  with exec_slots [OF e] have "semaphore s' + holders ts' = concurrency"
    by (simp add: Scraper_def)
  with e show ?thesis by simp
qed

subsection \<open>What each coroutine returns\<close>

lemma on_exception_outcome: "outcome_of net (fst (on_exception url e s)) = None"
  by (cases e) simp_all

lemma resume_outcome: "outcome_of net (fst (resume net url t s)) = outcome_of net t"
proof (cases t)
  case Pending
  then show ?thesis by simp
next
  case AwaitGet
  then show ?thesis
    by (simp add: final_value_def on_exception_outcome split: sum.splits)
next
  case (Sleeping r)
  then show ?thesis
    by (simp add: Let_def on_exception_outcome split: sum.splits)
next
  case AwaitRetry
  then show ?thesis by (simp split: sum.splits)
next
  case (Done v)
  then show ?thesis by simp
qed

lemma step_urls: "map fst (snd (step net i c)) = map fst (snd c)"
proof (cases c)
  case (Pair s ts)
  show ?thesis
  proof (cases "i < length ts")
    case False
    with Pair show ?thesis by (simp add: step_def)
  next
    case True
    obtain url t where ti: "ts ! i = (url, t)" by (cases "ts ! i")
    then have "fst (ts ! i) = url" by simp
    with True have "(map fst ts)[i := url] = map fst ts"
      by (metis length_map list_update_id nth_map)
    with Pair True ti show ?thesis
      by (simp add: step_def map_update split: prod.splits)
  qed
qed

lemma step_outcome:
  assumes "k < length (snd c)"
  shows "outcome_of (net k (fst (snd c ! k))) (snd (snd (step net i c) ! k)) =
         outcome_of (net k (fst (snd c ! k))) (snd (snd c ! k))"
proof (cases c)
  case (Pair s ts)
  show ?thesis
  proof (cases "i < length ts")
    case False
    with Pair show ?thesis by (simp add: step_def)
  next
    case True
    obtain url t where ti: "ts ! i = (url, t)" by (cases "ts ! i")
    obtain t1 s1 where r: "resume (net i url) url t s = (t1, s1)"
      by (cases "resume (net i url) url t s")
    from Pair True ti r have st: "snd (step net i c) = ts[i := (url, t1)]"
      by (simp add: step_def)
    show ?thesis
    proof (cases "k = i")
      case True
      from resume_outcome [of "net i url" url t s] r
      have "outcome_of (net i url) t1 = outcome_of (net i url) t" by simp
      with True \<open>i < length ts\<close> ti st Pair show ?thesis by simp
    next
      case False
      with st Pair show ?thesis by simp
    qed
  qed
qed

lemma exec_urls: "map fst (snd (exec net sched c)) = map fst (snd c)"
  by (induction sched arbitrary: c) (simp_all add: step_urls)

lemma exec_length: "length (snd (exec net sched c)) = length (snd c)"
  using exec_urls [of net sched c] by (metis length_map)

lemma step_length: "length (snd (step net i c)) = length (snd c)"
  using step_urls [of net i c] by (metis length_map)

lemma step_url_nth:
  assumes "k < length (snd c)"
  shows "fst (snd (step net i c) ! k) = fst (snd c ! k)"
proof -
  from assms have "fst (snd (step net i c) ! k) = map fst (snd (step net i c)) ! k"
    by (simp add: step_length)
  also have "\<dots> = map fst (snd c) ! k" by (simp only: step_urls)
  also from assms have "\<dots> = fst (snd c ! k)" by simp
  finally show ?thesis .
qed

lemma exec_outcome:
  "k < length (snd c) \<Longrightarrow>
     outcome_of (net k (fst (snd c ! k))) (snd (snd (exec net sched c) ! k)) =
     outcome_of (net k (fst (snd c ! k))) (snd (snd c ! k))"
proof (induction sched arbitrary: c)
  case Nil
  then show ?case by simp
next
  case (Cons i sched)
  from Cons.prems have k: "k < length (snd (step net i c))" by (simp add: step_length)
  from Cons.IH [OF k] step_url_nth [OF Cons.prems, of net i]
    step_outcome [OF Cons.prems, of net i]
  show ?case by simp
qed

lemma those_map_nth:
  "those (map f xs) = Some ys \<Longrightarrow> length ys = length xs \<and> (\<forall>k<length xs. f (xs ! k) = Some (ys ! k))"
proof (induction xs arbitrary: ys)
  case Nil
  then show ?case by simp
next
  case (Cons x xs)
  from Cons.prems obtain y ys' where
    y: "f x = Some y" and ys': "those (map f xs) = Some ys'" and ys: "ys = y # ys'"
    by (auto split: option.splits)
  from Cons.IH [OF ys'] y ys show ?case by (auto simp: nth_Cons split: nat.splits)
qed

lemma task_result_outcome: "task_result t = Some v \<Longrightarrow> outcome_of net t = v"
  by (cases t) simp_all

text \<open>
  When \<^verbatim>\<open>fetch_data\<close> returns, the entry at a position is what the coroutine created for
  the URL at that position returned.
\<close>

lemma fetch_data_results:
  assumes "fetch_data net sched urls_list s = Some (results, s')"
  shows "length results = length urls_list \<and>
         (\<forall>i<length urls_list.
            Inr (results ! i) =
              fst (fetch_json_body (net i (urls_list ! i)) (urls_list ! i) s0))"
proof -
  let ?c = "(s, map (\<lambda>url. (url, Pending :: 'a task)) urls_list)"
  let ?ts = "snd (exec net sched ?c)"
  from assms have th: "those (map (\<lambda>(url, t). task_result t) ?ts) = Some results"
    by (auto simp: fetch_data_def split: prod.splits option.splits)
  have len: "length ?ts = length urls_list" by (simp add: exec_length)
  from those_map_nth [OF th] len have
    l: "length results = length urls_list" and
    r: "\<forall>k<length urls_list. (\<lambda>(url, t). task_result t) (?ts ! k) = Some (results ! k)"
    by simp_all
  have "Inr (results ! i) = fst (fetch_json_body (net i (urls_list ! i)) (urls_list ! i) s0)"
    if i: "i < length urls_list" for i
  proof -
    from i have u: "fst (snd ?c ! i) = urls_list ! i" by simp
    from r i have "task_result (snd (?ts ! i)) = Some (results ! i)"
      by (simp add: case_prod_beta)
    then have "results ! i = outcome_of (net i (fst (snd ?c ! i))) (snd (?ts ! i))"
      by (simp add: task_result_outcome)
    also from i have "\<dots> = outcome_of (net i (fst (snd ?c ! i))) (snd (snd ?c ! i))"
      by (intro exec_outcome) simp
    also from i have "\<dots> = final_value (net i (urls_list ! i))" by simp
    finally show ?thesis by (simp add: fetch_json_body_final_value)
  qed
  with l show ?thesis by blast
qed

subsection \<open>Every run can finish\<close>

text \<open>
  Resuming a coroutine that can go on brings it nearer to its return, and while a slot
  is free or held some coroutine can go on: so some schedule ends the run.
\<close>

lemma on_exception_remaining:
  "remaining (fst (on_exception url e s)) < 2" "remaining (fst (on_exception url e s)) < 3"
  by (cases e; simp)+

lemma resume_remaining:
  assumes "t \<noteq> Pending \<or> 0 < semaphore s" and "task_result t = None"
  shows "remaining (fst (resume net url t s)) < remaining t"
proof (cases t)
  case Pending
  with assms show ?thesis by simp
next
  case AwaitGet
  then show ?thesis by (simp add: on_exception_remaining split: sum.splits)
next
  case (Sleeping r)
  then show ?thesis by (simp add: Let_def on_exception_remaining split: sum.splits)
next
  case AwaitRetry
  then show ?thesis by (simp split: sum.splits)
next
  case (Done v)
  with assms show ?thesis by simp
qed

lemma work_update:
  assumes "i < length ts" and "ts ! i = (url, t)" and "remaining t' < remaining t"
  shows "work (ts[i := (url', t')]) < work ts"
  using assms
proof (induction ts arbitrary: i)
  case Nil
  then show ?case by simp
next
  case (Cons a ts)
  show ?case
  proof (cases i)
    case 0
    with Cons.prems show ?thesis by (simp add: work_def)
  next
    case (Suc j)
    with Cons.prems have "work (ts[j := (url', t')]) < work ts"
      by (intro Cons.IH) simp_all
    with Suc show ?thesis by (simp add: work_def)
  qed
qed

lemma holders_pos:
  assumes "0 < holders ts"
  shows "\<exists>i<length ts. holds_slot (snd (ts ! i))"
proof -
  from assms have "filter (\<lambda>(url, t). holds_slot t) ts \<noteq> []"
    by (simp add: holders_def)
  then obtain x where "x \<in> set ts" and "holds_slot (snd x)"
    by (auto simp: filter_empty_conv)
  then show ?thesis by (metis in_set_conv_nth)
qed

lemma can_resume:
  assumes "0 < semaphore s + holders ts"
    and "\<exists>x\<in>set ts. task_result (snd x) = None"
  shows "\<exists>i<length ts. task_result (snd (ts ! i)) = None \<and>
           (snd (ts ! i) \<noteq> Pending \<or> 0 < semaphore s)"
proof (cases "0 < holders ts")
  case True
  then obtain i where i: "i < length ts" and h: "holds_slot (snd (ts ! i))"
    using holders_pos by blast
  from h have "task_result (snd (ts ! i)) = None \<and> snd (ts ! i) \<noteq> Pending"
    by (cases "snd (ts ! i)") simp_all
  with i show ?thesis by blast
next
  case False
  with assms(1) have "0 < semaphore s" by simp
  moreover from assms(2) obtain i where "i < length ts" and "task_result (snd (ts ! i)) = None"
    by (metis in_set_conv_nth)
  ultimately show ?thesis by blast
qed

lemma complete_schedule:
  "0 < semaphore s + holders ts \<Longrightarrow>
     \<exists>sched. \<forall>x\<in>set (snd (exec net sched (s, ts))). task_result (snd x) \<noteq> None"
proof (induction "work ts" arbitrary: s ts rule: less_induct)
  case less
  show ?case
  proof (cases "\<exists>x\<in>set ts. task_result (snd x) = None")
    case False
    then have "\<forall>x\<in>set (snd (exec net [] (s, ts))). task_result (snd x) \<noteq> None" by simp
    then show ?thesis by blast
  next
    case True
    from can_resume [OF less.prems True] obtain i where i: "i < length ts"
      and nd: "task_result (snd (ts ! i)) = None"
      and en: "snd (ts ! i) \<noteq> Pending \<or> 0 < semaphore s"
      by blast
    obtain url t where ti: "ts ! i = (url, t)" by (cases "ts ! i")
    obtain t1 s1 where r: "resume (net i url) url t s = (t1, s1)"
      by (cases "resume (net i url) url t s")
    from i ti r have st: "step net i (s, ts) = (s1, ts[i := (url, t1)])"
      by (simp add: step_def)
    from resume_remaining [of t s "net i url" url] nd en ti r have "remaining t1 < remaining t"
      by simp
    with i ti have w: "work (ts[i := (url, t1)]) < work ts" by (rule work_update)
    from step_slots [OF st] less.prems have "0 < semaphore s1 + holders (ts[i := (url, t1)])"
      by simp
    from less.hyps [OF w this] obtain sched where
      "\<forall>x\<in>set (snd (exec net sched (s1, ts[i := (url, t1)]))). task_result (snd x) \<noteq> None"
      by blast
    with st have "\<forall>x\<in>set (snd (exec net (i # sched) (s, ts))). task_result (snd x) \<noteq> None"
      by simp
    then show ?thesis by blast
  qed
qed

lemma those_map_Some:
  "\<forall>x\<in>set xs. f x \<noteq> None \<Longrightarrow> \<exists>ys. those (map f xs) = Some ys"
  by (induction xs) auto

lemma fetch_data_completes:
  assumes "0 < semaphore s \<or> urls_list = []"
  shows "\<exists>sched out. fetch_data net sched urls_list s = Some out"
proof -
  let ?ts = "map (\<lambda>url. (url, Pending :: 'a task)) urls_list"
  have "\<exists>sched. \<forall>x\<in>set (snd (exec net sched (s, ?ts))). task_result (snd x) \<noteq> None"
  proof (cases "urls_list = []")
    case True
    then have "\<forall>x\<in>set (snd (exec net [] (s, ?ts))). task_result (snd x) \<noteq> None" by simp
    then show ?thesis by blast
  next
    case False
    with assms have "0 < semaphore s + holders ?ts" by simp
    then show ?thesis by (rule complete_schedule)
  qed
  then obtain sched where
    d: "\<forall>x\<in>set (snd (exec net sched (s, ?ts))). task_result (snd x) \<noteq> None" by blast
  obtain s1 ts where e: "exec net sched (s, ?ts) = (s1, ts)" by (cases "exec net sched (s, ?ts)")
  with d have "\<forall>x\<in>set ts. (\<lambda>(url, t). task_result t) x \<noteq> None"
    by (simp add: case_prod_beta)
  then obtain ys where "those (map (\<lambda>(url, t). task_result t) ts) = Some ys"
    using those_map_Some by blast
  with e have "fetch_data net sched urls_list s =
      Some (ys, s1\<lparr>stdout := stdout s1 @ [successful_fetches s1]\<rparr>)"
    by (simp add: fetch_data_def)
  then show ?thesis by blast
qed

lemma fetch_data_length:
  assumes "fetch_data net sched urls_list s = Some (results, s')"
  shows "length results = length urls_list"
proof -
  let ?ts = "snd (exec net sched (s, map (\<lambda>url. (url, Pending :: 'a task)) urls_list))"
  from assms have "those (map (\<lambda>(url, t). task_result t) ?ts) = Some results"
    by (auto simp: fetch_data_def split: prod.splits option.splits)
  from those_map_nth [OF this] show ?thesis by (simp add: exec_length)
qed

lemma run_fetch_data:
  "run net sched urls_list concurrency = Some (returned, s') \<Longrightarrow>
     \<exists>data s. fetch_data net sched urls_list (Scraper concurrency) = Some (data, s) \<and>
       returned = (if data \<noteq> [] then Some data else None)"
  by (auto simp: run_def split: option.splits if_splits)

section \<open>The run\<close>

text \<open>
  C1. For every list of URLs, network and capacity: \<^verbatim>\<open>fetch_data\<close> does return under
  some schedule when a slot is free (or the list is empty), and \<^verbatim>\<open>run\<close> does return a
  list under some schedule when the capacity is positive and the list is not empty.
  Under whatever schedule \<^verbatim>\<open>fetch_data\<close> returns, and whenever \<^verbatim>\<open>run\<close> returns a list, that
  list is as long as the list of URLs, and its entry at position \<open>i\<close> is the value that
  \<open>fetch_json\<close> returns for the URL at position \<open>i\<close>, given what the network answers to
  the coroutine at position \<open>i\<close> for that URL. The order in which the fetches complete
  plays no part.
\<close>

theorem gather_keeps_order:
  "(0 < semaphore s \<or> urls_list = [] \<longrightarrow>
      (\<exists>sched out. fetch_data net sched urls_list s = Some out)) \<and>
   (\<forall>sched results s'.
      fetch_data net sched urls_list s = Some (results, s') \<longrightarrow>
        length results = length urls_list \<and>
        (\<forall>i<length urls_list.
           Inr (results ! i) =
             fst (fetch_json_body (net i (urls_list ! i)) (urls_list ! i) s0))) \<and>
   (0 < concurrency \<and> urls_list \<noteq> [] \<longrightarrow>
      (\<exists>sched results s'. run net sched urls_list concurrency = Some (Some results, s'))) \<and>
   (\<forall>sched results s'.
      run net sched urls_list concurrency = Some (Some results, s') \<longrightarrow>
        length results = length urls_list \<and>
        (\<forall>i<length urls_list.
           Inr (results ! i) =
             fst (fetch_json_body (net i (urls_list ! i)) (urls_list ! i) s0)))"
proof -
  let ?aligned = "\<lambda>results. length results = length urls_list \<and>
        (\<forall>i<length urls_list.
           Inr (results ! i) =
             fst (fetch_json_body (net i (urls_list ! i)) (urls_list ! i) s0))"
  have returns: "\<exists>sched out. fetch_data net sched urls_list s = Some out"
    if "0 < semaphore s \<or> urls_list = []"
    using that by (rule fetch_data_completes)
  have order: "?aligned results"
    if "fetch_data net sched urls_list s = Some (results, s')" for sched results s'
    using that by (rule fetch_data_results)
  have run_returns:
    "\<exists>sched results s'. run net sched urls_list concurrency = Some (Some results, s')"
    if a: "0 < concurrency \<and> urls_list \<noteq> []"
  proof -
    from a have "0 < semaphore (Scraper concurrency) \<or> urls_list = []"
      by (simp add: Scraper_def)
    then obtain sched out where
      "fetch_data net sched urls_list (Scraper concurrency) = Some out"
      using fetch_data_completes by blast
    then obtain data st where
      fd: "fetch_data net sched urls_list (Scraper concurrency) = Some (data, st)"
      by (cases out) simp
    from fetch_data_length [OF fd] a have "data \<noteq> []" by auto
    with fd have "run net sched urls_list concurrency =
        Some (Some data, st\<lparr>client_closed := True\<rparr>)"
      by (simp add: run_def)
    then show ?thesis by blast
  qed
  have run_order: "?aligned results"
    if r: "run net sched urls_list concurrency = Some (Some results, s')" for sched results s'
  proof -
    from run_fetch_data [OF r] obtain data st where
      fd: "fetch_data net sched urls_list (Scraper concurrency) = Some (data, st)" and
      ret: "Some results = (if data \<noteq> [] then Some data else None)"
      by blast
    from ret have "data = results" by (simp split: if_splits)
    with fd have "fetch_data net sched urls_list (Scraper concurrency) = Some (results, st)"
      by simp
    then show ?thesis by (rule fetch_data_results)
  qed
  from returns order run_returns run_order show ?thesis by blast
qed

text \<open>
  Three URLs on two slots, in a network that answers by URL. The fetch of \<^verbatim>\<open>u0\<close>, at
  position 1, returns first; then that of \<^verbatim>\<open>u1\<close>, at position 2, which had to wait for a
  slot; the fetch of \<^verbatim>\<open>u2\<close>, at position 0, returns last, after its retry. The results
  stand in the order of the URLs.
\<close>

theorem gather_keeps_order_witness:
  "(0 < semaphore (Scraper 2) \<or> [''u2'', ''u0'', ''u1''] = []) \<and>
   (0 < (2::nat) \<and> [''u2'', ''u0'', ''u1''] \<noteq> []) \<and>
   fetch_data example_web [0, 1, 2, 1, 0, 1, 2, 2, 0] [''u2'', ''u0'', ''u1''] (Scraper 2) =
     Some ([None, Some ''page 1'', None],
           \<lparr>semaphore = 2, successful_fetches = 1, client_closed = False,
            client_calls = [''u2'', ''u0'', ''u2'', ''u1''],
            logged = [Error_request ''u2'', Info_fetched ''u0'', Error_http ''u1''],
            stdout = [1]\<rparr>) \<and>
   run example_web [0, 1, 2, 1, 0, 1, 2, 2, 0] [''u2'', ''u0'', ''u1''] 2 =
     Some (Some [None, Some ''page 1'', None],
           \<lparr>semaphore = 2, successful_fetches = 1, client_closed = True,
            client_calls = [''u2'', ''u0'', ''u2'', ''u1''],
            logged = [Error_request ''u2'', Info_fetched ''u0'', Error_http ''u1''],
            stdout = [1]\<rparr>) \<and>
   length [None, Some ''page 1'', None] = length [''u2'', ''u0'', ''u1''] \<and>
   Inr None = fst (fetch_json_body (example_web 0 ''u2'') ''u2'' (Scraper 2)) \<and>
   Inr (Some ''page 1'') = fst (fetch_json_body (example_web 1 ''u0'') ''u0'' (Scraper 2)) \<and>
   Inr None = fst (fetch_json_body (example_web 2 ''u1'') ''u1'' (Scraper 2))"
proof -
  have free: "0 < semaphore (Scraper 2) \<or> [''u2'', ''u0'', ''u1''] = []"
    by (simp add: Scraper_def)
  have h: "fetch_data example_web [0, 1, 2, 1, 0, 1, 2, 2, 0] [''u2'', ''u0'', ''u1''] (Scraper 2) =
     Some ([None, Some ''page 1'', None],
           \<lparr>semaphore = 2, successful_fetches = 1, client_closed = False,
            client_calls = [''u2'', ''u0'', ''u2'', ''u1''],
            logged = [Error_request ''u2'', Info_fetched ''u0'', Error_http ''u1''],
            stdout = [1]\<rparr>)"
    by code_simp
  have g: "run example_web [0, 1, 2, 1, 0, 1, 2, 2, 0] [''u2'', ''u0'', ''u1''] 2 =
     Some (Some [None, Some ''page 1'', None],
           \<lparr>semaphore = 2, successful_fetches = 1, client_closed = True,
            client_calls = [''u2'', ''u0'', ''u2'', ''u1''],
            logged = [Error_request ''u2'', Info_fetched ''u0'', Error_http ''u1''],
            stdout = [1]\<rparr>)"
    by code_simp
  from gather_keeps_order
    [of "Scraper 2" "[''u2'', ''u0'', ''u1'']" example_web "Scraper 2" 2]
  have "\<forall>sched results s'.
      fetch_data example_web sched [''u2'', ''u0'', ''u1''] (Scraper 2) = Some (results, s') \<longrightarrow>
        length results = length [''u2'', ''u0'', ''u1''] \<and>
        (\<forall>i<length [''u2'', ''u0'', ''u1''].
           Inr (results ! i) =
             fst (fetch_json_body (example_web i ([''u2'', ''u0'', ''u1''] ! i))
                    ([''u2'', ''u0'', ''u1''] ! i) (Scraper 2)))"
    by blast
  from this [rule_format, OF h] have
    l: "length [None, Some ''page 1'', None] = length [''u2'', ''u0'', ''u1'']" and
    a: "\<forall>i<length [''u2'', ''u0'', ''u1''].
          Inr ([None, Some ''page 1'', None] ! i) =
          fst (fetch_json_body (example_web i ([''u2'', ''u0'', ''u1''] ! i))
                 ([''u2'', ''u0'', ''u1''] ! i) (Scraper 2))"
    by blast+
  from a [rule_format, of 0] a [rule_format, of 1] a [rule_format, of 2] free h g
  show ?thesis by simp
qed

text \<open>
  C10. \<^verbatim>\<open>run\<close> returns \<^verbatim>\<open>None\<close> exactly when the list of URLs is empty. With a slot in the
  semaphore (or no URL at all) some schedule makes it return; and whenever it returns,
  the value is \<^verbatim>\<open>None\<close> if and only if the list of URLs is empty, and a returned list is
  as long as the list of URLs. So for a non-empty list it returns the list of results,
  also when every entry is \<^verbatim>\<open>None\<close>.
\<close>

theorem run_sentinel_iff_empty:
  "(0 < concurrency \<or> urls_list = [] \<longrightarrow>
      (\<exists>sched out. run net sched urls_list concurrency = Some out)) \<and>
   (\<forall>sched returned s'.
      run net sched urls_list concurrency = Some (returned, s') \<longrightarrow>
        (returned = None) = (urls_list = []) \<and>
        (\<forall>data. returned = Some data \<longrightarrow> length data = length urls_list))"
proof (intro conjI impI allI)
  assume "0 < concurrency \<or> urls_list = []"
  then have "0 < semaphore (Scraper concurrency) \<or> urls_list = []" by (simp add: Scraper_def)
  then obtain sched out where "fetch_data net sched urls_list (Scraper concurrency) = Some out"
    using fetch_data_completes by blast
  then have "\<exists>out. run net sched urls_list concurrency = Some out"
    by (cases out) (simp add: run_def)
  then show "\<exists>sched out. run net sched urls_list concurrency = Some out" by blast
next
  fix sched returned s'
  assume "run net sched urls_list concurrency = Some (returned, s')"
  then obtain data s where
    fd: "fetch_data net sched urls_list (Scraper concurrency) = Some (data, s)" and
    ret: "returned = (if data \<noteq> [] then Some data else None)"
    using run_fetch_data by blast
  from fetch_data_length [OF fd] have len: "length data = length urls_list" .
  from ret len show "(returned = None) = (urls_list = [])" by auto
  fix d
  assume "returned = Some d"
  with ret len show "length d = length urls_list" by (auto split: if_splits)
qed

text \<open>Two URLs that both fail: the list of two \<^verbatim>\<open>None\<close>s is returned.\<close>

theorem run_sentinel_iff_empty_witness:
  "(0 < (2::nat) \<or> [''a'', ''b''] = []) \<and>
   run failing_net [1, 0, 0, 1, 1] [''a'', ''b''] 2 =
     Some (Some [None, None],
           \<lparr>semaphore = 2, successful_fetches = 0, client_closed = True,
            client_calls = [''b'', ''a'', ''b''],
            logged = [Error_http ''a'', Error_request ''b''], stdout = [0]\<rparr>) \<and>
   (Some [None, None :: string option] = None) = ([''a'', ''b''] = []) \<and>
   length [None, None :: string option] = length [''a'', ''b'']"
proof -
  have h: "run failing_net [1, 0, 0, 1, 1] [''a'', ''b''] 2 =
     Some (Some [None, None],
           \<lparr>semaphore = 2, successful_fetches = 0, client_closed = True,
            client_calls = [''b'', ''a'', ''b''],
            logged = [Error_http ''a'', Error_request ''b''], stdout = [0]\<rparr>)"
    by code_simp
  from run_sentinel_iff_empty [of 2 "[''a'', ''b'']" failing_net] have
    "\<forall>sched returned s'.
       run failing_net sched [''a'', ''b''] 2 = Some (returned, s') \<longrightarrow>
         (returned = None) = ([''a'', ''b''] = []) \<and>
         (\<forall>data. returned = Some data \<longrightarrow> length data = length [''a'', ''b''])"
    by blast
  from this [rule_format, OF h] h show ?thesis by simp
qed

text \<open>
  C3. Two URLs that both fail, so that every entry of the result is \<^verbatim>\<open>None\<close>: \<^verbatim>\<open>run\<close>
  returns the list of the two \<^verbatim>\<open>None\<close>s, and the line "No data fetched from the URLs" is
  not logged. The test \<^verbatim>\<open>if data\<close> is true of every non-empty list.
\<close>

theorem run_all_failed_returns_list:
  "run failing_net [0, 1, 0, 1, 1] [''https://a.example/x'', ''https://b.example/y''] 10 =
     Some (Some [None, None],
           \<lparr>semaphore = 10, successful_fetches = 0, client_closed = True,
            client_calls = [''https://a.example/x'', ''https://b.example/y'',
                            ''https://b.example/y''],
            logged = [Error_http ''https://a.example/x'',
                      Error_request ''https://b.example/y''],
            stdout = [0]\<rparr>)"
  by code_simp

text \<open>
  C2. One URL that answers 200 with a body that is not JSON: the fetch is logged as
  fetched and counted, then \<^verbatim>\<open>response.json()\<close> raises, the fetch is logged as an
  unexpected error and returns \<^verbatim>\<open>None\<close>. The run ends with the counter at 1 (the number
  it prints) and no entry of the result other than \<^verbatim>\<open>None\<close>.
\<close>

theorem counter_counts_undecodable:
  "run undecodable_net [0, 0, 0] [''https://a.example/x''] 10 =
     Some (Some [None],
           \<lparr>semaphore = 10, successful_fetches = 1, client_closed = True,
            client_calls = [''https://a.example/x''],
            logged = [Info_fetched ''https://a.example/x'',
                      Error_unexpected ''https://a.example/x''],
            stdout = [1]\<rparr>) \<and>
   length (filter (\<lambda>r. r \<noteq> None) [None :: string option]) = 0"
  by code_simp

lemma exec_no_tasks: "exec net sched (s, []) = (s, [])"
  by (induction sched) (simp_all add: step_def)

text \<open>
  C4, as the claim states it: for the empty list \<^verbatim>\<open>run\<close> would return the empty list.
  It returns \<^verbatim>\<open>None\<close>.
\<close>

theorem run_empty_counterexample:
  "map_option fst (run example_web [] [] 10) = Some None \<and>
   map_option fst (run example_web [] [] 10) \<noteq> Some (Some [])"
  by code_simp

text \<open>
  C4, amended. For the empty list of URLs, under every schedule and capacity,
  \<^verbatim>\<open>fetch_data\<close> returns the empty list and prints the count it finds; and \<^verbatim>\<open>run\<close> returns
  \<^verbatim>\<open>None\<close>, having issued no GET, with the counter at zero (the number printed) and the
  line "No data fetched from the URLs" logged.
\<close>

theorem run_empty:
  "fetch_data net sched [] s = Some ([], s\<lparr>stdout := stdout s @ [successful_fetches s]\<rparr>) \<and>
   run net sched [] concurrency =
     Some (None, \<lparr>semaphore = concurrency, successful_fetches = 0, client_closed = True,
                  client_calls = [], logged = [Error_no_data], stdout = [0]\<rparr>)"
  by (simp add: run_def fetch_data_def exec_no_tasks Scraper_def)

end
